theory Spec2Isabelle
  imports Main "HOL-Library.Char_ord"
begin

section \<open>Message history manager (app/core/orchestrator.py)\<close>

text \<open>
  A \<open>ModelMessage\<close> is modelled by the two attributes the orchestrator reads:
  \<open>kind\<close>, and the optional attribute \<open>id\<close> (\<open>hasattr(msg, 'id')\<close> is
  \<open>msg_id m \<noteq> None\<close>).  The payload is carried along as a string.
\<close>

record message =
  msg_id :: "string option"
  kind :: string
  payload :: string

text \<open>First loop of \<open>combine_message_histories\<close>: the set of identities of the existing history.\<close>

fun existing_ids_of :: "message list \<Rightarrow> string set \<Rightarrow> string set" where
  "existing_ids_of [] ids = ids"
| "existing_ids_of (msg # rest) ids =
     (case msg_id msg of
        Some i \<Rightarrow> existing_ids_of rest (insert i ids)
      | None \<Rightarrow> existing_ids_of rest ids)"

text \<open>Second loop: append the new messages that have no identity or an unseen one.\<close>

fun append_new :: "string set \<Rightarrow> message list \<Rightarrow> message list \<Rightarrow> message list" where
  "append_new ids combined [] = combined"
| "append_new ids combined (msg # rest) =
     (if msg_id msg = None \<or> the (msg_id msg) \<notin> ids
      then append_new ids (combined @ [msg]) rest
      else append_new ids combined rest)"

definition combine_message_histories :: "message list \<Rightarrow> message list \<Rightarrow> message list" where
  "combine_message_histories existing_history new_messages =
     (let existing_ids = existing_ids_of existing_history {};
          combined = existing_history
      in append_new existing_ids combined new_messages)"

text \<open>
  The same function on an object store, to speak about mutation: a list object lives at
  an address (its index in the store), \<open>list(existing_history)\<close> allocates a new object,
  and every \<open>combined.append(msg)\<close> updates the object at that address.  The two
  arguments are addresses and may be aliases of each other.
\<close>

type_synonym heap = "message list list"

fun append_new_at :: "string set \<Rightarrow> nat \<Rightarrow> heap \<Rightarrow> message list \<Rightarrow> heap" where
  "append_new_at ids r h [] = h"
| "append_new_at ids r h (msg # rest) =
     (if msg_id msg = None \<or> the (msg_id msg) \<notin> ids
      then append_new_at ids r (h[r := h ! r @ [msg]]) rest
      else append_new_at ids r h rest)"

definition combine_message_histories_at :: "heap \<Rightarrow> nat \<Rightarrow> nat \<Rightarrow> heap \<times> nat" where
  "combine_message_histories_at h existing_history new_messages =
     (let existing_ids = existing_ids_of (h ! existing_history) {};
          combined = length h;
          h1 = h @ [h ! existing_history]
      in (append_new_at existing_ids combined h1 (h1 ! new_messages), combined))"

text \<open>Python's \<open>xs[i:]\<close> for an integer \<open>i\<close>: a negative index counts from the end.\<close>

definition slice_from :: "'a list \<Rightarrow> int \<Rightarrow> 'a list" where
  "slice_from xs i =
     (if i < 0 then drop (nat (int (length xs) + i)) xs else drop (nat i) xs)"

definition truncate_message_history :: "message list \<Rightarrow> int \<Rightarrow> message list" where
  "truncate_message_history message_history max_messages =
     (if int (length message_history) \<le> max_messages then message_history
      else
        let system_messages = filter (\<lambda>msg. kind msg = ''system'') message_history;
            other_messages = filter (\<lambda>msg. kind msg \<noteq> ''system'') message_history;
            recent_messages = slice_from other_messages (- max_messages)
        in system_messages @ recent_messages)"

text \<open>What the specification promises for the part after the system messages.\<close>

definition most_recent :: "nat \<Rightarrow> 'a list \<Rightarrow> 'a list" where
  "most_recent m xs = drop (length xs - m) xs"

section \<open>Source records and the relational store (app/core/rag/indexer.py)\<close>

text \<open>
  The columns of \<open>Webpage\<close> that the indexer reads and writes.  \<open>is_indexed\<close> is
  \<open>BOOLEAN NOT NULL DEFAULT FALSE\<close> and \<open>indexed_at\<close> is nullable
  (scripts/add_indexing_columns.py).  A timestamp is a point on a discrete clock.
\<close>

type_synonym timestamp = nat

record webpage =
  wp_id :: int
  url :: string
  title :: "string option"
  content_markdown :: "string option"
  last_crawled :: "timestamp option"
  collection_id :: "string option"
  is_indexed :: bool
  indexed_at :: "timestamp option"

text \<open>Python exceptions: FastAPI's \<open>HTTPException(status_code, detail)\<close> and any other one.\<close>

datatype exn = HTTPException nat string | Exception string

text \<open>
  An \<open>AsyncSession\<close> on the relational store.  \<open>committed\<close> is what the database
  holds, \<open>pending\<close> is the view of the open transaction.  The store is an external
  collaborator that may fail: \<open>outcomes\<close> scripts the result of the coming calls of
  \<open>execute\<close> and \<open>commit\<close> (\<open>False\<close>: the call raises; an empty script: every
  call succeeds).  \<open>statements\<close> records the \<open>IN\<close> list of every \<open>UPDATE\<close>
  sent to the store.
\<close>

record db_session =
  committed :: "webpage list"
  pending :: "webpage list"
  outcomes :: "bool list"
  statements :: "int list list"

definition next_outcome :: "db_session \<Rightarrow> bool \<times> db_session" where
  "next_outcome db =
     (case outcomes db of
        [] \<Rightarrow> (True, db)
      | ok # rest \<Rightarrow> (ok, db\<lparr>outcomes := rest\<rparr>))"

definition execute_select ::
  "db_session \<Rightarrow> (webpage \<Rightarrow> bool) \<Rightarrow> (exn + webpage list) \<times> db_session" where
  "execute_select db cond =
     (case next_outcome db of
        (True, db1) \<Rightarrow> (Inr (filter cond (pending db1)), db1)
      | (False, db1) \<Rightarrow> (Inl (Exception ''database error''), db1))"

text \<open>\<open>UPDATE webpages SET is_indexed = true, indexed_at = :now WHERE id IN (:batch_ids)\<close>\<close>

definition set_indexed :: "int set \<Rightarrow> timestamp \<Rightarrow> webpage list \<Rightarrow> webpage list" where
  "set_indexed ids now ws =
     map (\<lambda>w. if wp_id w \<in> ids then w\<lparr>is_indexed := True, indexed_at := Some now\<rparr> else w) ws"

definition execute_update ::
  "db_session \<Rightarrow> int list \<Rightarrow> timestamp \<Rightarrow> (exn + unit) \<times> db_session" where
  "execute_update db batch_ids now =
     (case next_outcome (db\<lparr>statements := statements db @ [batch_ids]\<rparr>) of
        (True, db1) \<Rightarrow> (Inr (), db1\<lparr>pending := set_indexed (set batch_ids) now (pending db1)\<rparr>)
      | (False, db1) \<Rightarrow> (Inl (Exception ''database error''), db1))"

definition commit :: "db_session \<Rightarrow> (exn + unit) \<times> db_session" where
  "commit db =
     (case next_outcome db of
        (True, db1) \<Rightarrow> (Inr (), db1\<lparr>committed := pending db1\<rparr>)
      | (False, db1) \<Rightarrow> (Inl (Exception ''database error''), db1))"

definition rollback :: "db_session \<Rightarrow> db_session" where
  "rollback db = db\<lparr>pending := committed db\<rparr>"

text \<open>\<open>async with async_session_maker() as db\<close>: a new session sees the committed rows.\<close>

definition async_session_maker :: "db_session \<Rightarrow> db_session" where
  "async_session_maker db = db\<lparr>pending := committed db\<rparr>"

text \<open>
  The dictionary built for each selected row.  \<open>last_crawled\<close> is kept as the timestamp
  itself; the source stores its ISO rendering.
\<close>

record document =
  doc_id :: int
  doc_url :: string
  doc_title :: string
  doc_content :: "string option"
  doc_last_crawled :: "timestamp option"

definition webpage_data :: "webpage \<Rightarrow> document" where
  "webpage_data webpage =
     \<lparr>doc_id = wp_id webpage,
      doc_url = url webpage,
      doc_title = (case title webpage of None \<Rightarrow> [] | Some t \<Rightarrow> t),
      doc_content = content_markdown webpage,
      doc_last_crawled = last_crawled webpage\<rparr>"

text \<open>
  The \<open>WHERE\<close> clause of \<open>get_unindexed_documents\<close>: a comparison with a \<open>NULL\<close>
  collection id is not true, and \<open>content_markdown != None\<close> is \<open>IS NOT NULL\<close>.
\<close>

definition unindexed_in :: "string \<Rightarrow> webpage \<Rightarrow> bool" where
  "unindexed_in cid w \<longleftrightarrow>
     collection_id w = Some cid \<and> is_indexed w = False \<and> content_markdown w \<noteq> None"

definition get_unindexed_documents ::
  "db_session \<Rightarrow> string \<Rightarrow> (exn + document list) \<times> db_session" where
  "get_unindexed_documents db cid =
     (case execute_select db (unindexed_in cid) of
        (Inr webpages, db1) \<Rightarrow> (Inr (map webpage_data webpages), db1)
      | (Inl e, db1) \<Rightarrow> (Inl e, db1))"

text \<open>
  The loop \<open>for i in range(0, len(document_ids), batch_size)\<close> of
  \<open>mark_documents_as_indexed\<close>, from index \<open>i\<close> on; it stops at the first call that
  raises.
\<close>

definition batch_size :: nat where
  "batch_size = 100"

function mark_batches ::
  "db_session \<Rightarrow> int list \<Rightarrow> timestamp \<Rightarrow> nat \<Rightarrow> (exn + unit) \<times> db_session" where
  "mark_batches db document_ids now i =
     (if i < length document_ids then
        (let batch_ids = take batch_size (drop i document_ids) in
         case execute_update db batch_ids now of
           (Inl e, db1) \<Rightarrow> (Inl e, db1)
         | (Inr u, db1) \<Rightarrow>
             (case commit db1 of
                (Inl e, db2) \<Rightarrow> (Inl e, db2)
              | (Inr u, db2) \<Rightarrow> mark_batches db2 document_ids now (i + batch_size)))
      else (Inr (), db))"
  by pat_completeness auto
termination
  by (relation "measure (\<lambda>(db, document_ids, now, i). length document_ids - i)")
     (auto simp: batch_size_def)

declare mark_batches.simps [simp del]

definition mark_documents_as_indexed ::
  "db_session \<Rightarrow> int list \<Rightarrow> timestamp \<Rightarrow> (exn + unit) \<times> db_session" where
  "mark_documents_as_indexed db document_ids now =
     (if document_ids = [] then (Inr (), db)
      else
        case mark_batches db document_ids now 0 of
          (Inr u, db1) \<Rightarrow> (Inr (), db1)
        | (Inl e, db1) \<Rightarrow> (Inl e, rollback db1))"

section \<open>Vector store, ingestion pipeline and the indexing run\<close>

text \<open>The decimal rendering of a number and \<open>str(e)\<close> of an exception.\<close>

function show_nat :: "nat \<Rightarrow> string" where
  "show_nat n =
     (if n < 10 then [char_of (48 + n)]
      else show_nat (n div 10) @ [char_of (48 + n mod 10)])"
  by pat_completeness auto
termination
  by (relation "measure (\<lambda>n. n)") auto

declare show_nat.simps [simp del]

fun str_exn :: "exn \<Rightarrow> string" where
  "str_exn (Exception msg) = msg"
| "str_exn (HTTPException status_code detail) = show_nat status_code @ '': '' @ detail"

text \<open>
  A node is one embedded chunk of a document, keyed by the document id and the chunk
  index.  The splitter, the embedding service and the vector store are external
  collaborators: each is a parameter of the run and may raise.
\<close>

record node =
  node_doc_id :: int
  node_index :: nat
  node_text :: string
  node_embedding :: "int list"

record rag_env =
  setup_vector_store :: "string \<Rightarrow> exn option"
  split_text :: "string \<Rightarrow> exn + string list"
  embed_text :: "string \<Rightarrow> exn + int list"
  vector_store_add :: "node list \<Rightarrow> node list \<Rightarrow> exn option \<times> node list"
  vector_store_index :: "node list \<Rightarrow> exn option"

fun map_raise :: "('a \<Rightarrow> exn + 'b) \<Rightarrow> 'a list \<Rightarrow> exn + 'b list" where
  "map_raise f [] = Inr []"
| "map_raise f (x # xs) =
     (case f x of
        Inl e \<Rightarrow> Inl e
      | Inr y \<Rightarrow> (case map_raise f xs of Inl e \<Rightarrow> Inl e | Inr ys \<Rightarrow> Inr (y # ys)))"

definition chunk_document :: "rag_env \<Rightarrow> document \<Rightarrow> exn + (int \<times> nat \<times> string) list" where
  "chunk_document env doc =
     (case split_text env (case doc_content doc of None \<Rightarrow> [] | Some c \<Rightarrow> c) of
        Inl e \<Rightarrow> Inl e
      | Inr chunks \<Rightarrow> Inr (map (\<lambda>(k, c). (doc_id doc, k, c)) (enumerate 0 chunks)))"

definition embed_chunk :: "rag_env \<Rightarrow> int \<times> nat \<times> string \<Rightarrow> exn + node" where
  "embed_chunk env = (\<lambda>(d, k, c).
     case embed_text env c of
       Inl e \<Rightarrow> Inl e
     | Inr v \<Rightarrow> Inr \<lparr>node_doc_id = d, node_index = k, node_text = c, node_embedding = v\<rparr>)"

text \<open>
  \<open>pipeline.run(documents=doc_objects)\<close>: chunk every document, embed every chunk,
  then upsert all the nodes into the vector store in one call.
\<close>

definition pipeline_run ::
  "rag_env \<Rightarrow> document list \<Rightarrow> node list \<Rightarrow> (exn + node list) \<times> node list" where
  "pipeline_run env documents vstore =
     (case map_raise (chunk_document env) documents of
        Inl e \<Rightarrow> (Inl e, vstore)
      | Inr chunked \<Rightarrow>
          (case map_raise (embed_chunk env) (concat chunked) of
             Inl e \<Rightarrow> (Inl e, vstore)
           | Inr nodes \<Rightarrow>
               (case vector_store_add env nodes vstore of
                  (Some e, vstore1) \<Rightarrow> (Inl e, vstore1)
                | (None, vstore1) \<Rightarrow> (Inr nodes, vstore1))))"

text \<open>
  The dictionary that the run returns.  Its entry \<open>processing_time_seconds\<close>, the
  floating-point difference of two clock readings, is left out.
\<close>

record stats =
  stats_collection_id :: string
  start_time :: timestamp
  documents_processed :: nat
  documents_indexed :: nat
  status :: string
  end_time :: "timestamp option"
  message :: "string option"
  error :: "string option"

record clock =
  t_start :: timestamp
  t_mark :: timestamp
  t_end :: timestamp

text \<open>The \<open>except Exception as e\<close> branch of \<open>index_documents_by_collection\<close>.\<close>

definition failed :: "stats \<Rightarrow> exn \<Rightarrow> clock \<Rightarrow> stats" where
  "failed st e clk = st\<lparr>status := ''failed'', error := Some (str_exn e), end_time := Some (t_end clk)\<rparr>"

definition index_documents_by_collection ::
  "rag_env \<Rightarrow> clock \<Rightarrow> db_session \<Rightarrow> node list \<Rightarrow> string \<Rightarrow> stats \<times> db_session \<times> node list" where
  "index_documents_by_collection env clk database vstore cid =
     (let stats0 = \<lparr>stats_collection_id = cid, start_time = t_start clk,
                     documents_processed = 0, documents_indexed = 0, status = ''started'',
                     end_time = None, message = None, error = None\<rparr>;
          db = async_session_maker database
      in case get_unindexed_documents db cid of
           (Inl e, db1) \<Rightarrow> (failed stats0 e clk, rollback db1, vstore)
         | (Inr documents, db1) \<Rightarrow>
             if documents = [] then
               (stats0\<lparr>status := ''completed'', end_time := Some (t_end clk),
                       message := Some ''No unindexed documents found''\<rparr>,
                rollback db1, vstore)
             else
               (case setup_vector_store env cid of
                  Some e \<Rightarrow> (failed stats0 e clk, rollback db1, vstore)
                | None \<Rightarrow>
                    let document_ids = map doc_id documents;
                        stats1 = stats0\<lparr>documents_processed := length document_ids\<rparr>
                    in case pipeline_run env documents vstore of
                         (Inl e, vstore1) \<Rightarrow> (failed stats1 e clk, rollback db1, vstore1)
                       | (Inr nodes, vstore1) \<Rightarrow>
                           (case vector_store_index env nodes of
                              Some e \<Rightarrow> (failed stats1 e clk, rollback db1, vstore1)
                            | None \<Rightarrow>
                                (case mark_documents_as_indexed db1 document_ids (t_mark clk) of
                                   (Inl e, db2) \<Rightarrow> (failed stats1 e clk, rollback db2, vstore1)
                                 | (Inr u, db2) \<Rightarrow>
                                     (stats1\<lparr>documents_indexed := length document_ids,
                                             status := ''completed'',
                                             end_time := Some (t_end clk)\<rparr>,
                                      rollback db2, vstore1)))))"

section \<open>Specification wording and example data for the indexer\<close>

text \<open>The selection as the specification words it: content must be non-empty.\<close>

definition select_unindexed_spec :: "string \<Rightarrow> webpage list \<Rightarrow> webpage list" where
  "select_unindexed_spec cid ws =
     filter (\<lambda>w. collection_id w = Some cid \<and> \<not> is_indexed w
                 \<and> content_markdown w \<noteq> None \<and> content_markdown w \<noteq> Some []) ws"

text \<open>A small store, a cooperative environment and a clock, used to run the functions.\<close>

definition demo_rows :: "webpage list" where
  "demo_rows =
     [\<lparr>wp_id = 1, url = ''a'', title = None, content_markdown = Some ''x'',
       last_crawled = None, collection_id = Some ''kfc'', is_indexed = False, indexed_at = None\<rparr>,
      \<lparr>wp_id = 150, url = ''b'', title = Some ''t'', content_markdown = Some ''y'',
       last_crawled = Some 4, collection_id = Some ''kfc'', is_indexed = False, indexed_at = None\<rparr>,
      \<lparr>wp_id = 250, url = ''c'', title = None, content_markdown = Some ''z'',
       last_crawled = None, collection_id = Some ''other'', is_indexed = False, indexed_at = None\<rparr>]"

definition demo_db :: "bool list \<Rightarrow> db_session" where
  "demo_db script = \<lparr>committed = demo_rows, pending = demo_rows, outcomes = script, statements = []\<rparr>"

definition demo_env :: rag_env where
  "demo_env =
     \<lparr>setup_vector_store = (\<lambda>name. None),
      split_text = (\<lambda>text. Inr [text]),
      embed_text = (\<lambda>chunk. Inr [int (length chunk)]),
      vector_store_add = (\<lambda>nodes vstore. (None, vstore @ nodes)),
      vector_store_index = (\<lambda>nodes. None)\<rparr>"

definition demo_clock :: clock where
  "demo_clock = \<lparr>t_start = 10, t_mark = 11, t_end = 12\<rparr>"

section \<open>Conversation sessions (app/api/endpoints/chat_endpoints.py)\<close>

record chat =
  chat_user_id :: "string option"
  chat_messages :: "message list"

text \<open>
  The relational store behind \<open>ChatPersistenceService\<close>: the sessions by id, and whether
  the store can be reached.
\<close>

record chat_store =
  sessions :: "string \<rightharpoonup> chat"
  reachable :: bool

definition persistence_failure :: exn where
  "persistence_failure = Exception ''persistence failure''"






definition delete_chat_session :: "chat_store \<Rightarrow> string \<Rightarrow> exn + bool \<times> chat_store" where
  "delete_chat_session db session_id =
     (if \<not> reachable db then Inl persistence_failure
      else case sessions db session_id of
             Some c \<Rightarrow> Inr (True, db\<lparr>sessions := (sessions db)(session_id := None)\<rparr>)
           | None \<Rightarrow> Inr (False, db))"



record agent_result =
  out_answer :: string
  out_sources :: "string list"
  out_confidence :: int
  out_retriever_type :: string
  all_messages :: "message list"
  new_messages :: "message list"






text \<open>
  \<open>delete_chat\<close>: the 404 is raised inside the \<open>try\<close> block, whose only handler is
  \<open>except Exception\<close>; \<open>HTTPException\<close> is an \<open>Exception\<close>.
\<close>

definition delete_chat :: "chat_store \<Rightarrow> string \<Rightarrow> (exn + string) \<times> chat_store" where
  "delete_chat db session_id =
     (case (case delete_chat_session db session_id of
              Inl e \<Rightarrow> (Inl e, db)
            | Inr (success, db1) \<Rightarrow>
                if \<not> success then
                  (Inl (HTTPException 404 (''Chat session '' @ session_id @ '' not found'')), db1)
                else (Inr (''Chat session '' @ session_id @ '' deleted successfully''), db1)) of
        (Inl e, db1) \<Rightarrow> (Inl (HTTPException 500 (''Internal server error: '' @ str_exn e)), db1)
      | (Inr r, db1) \<Rightarrow> (Inr r, db1))"

text \<open>The status code a raised exception reaches the caller with.\<close>

fun status_code :: "exn \<Rightarrow> nat" where
  "status_code (HTTPException code detail) = code"
| "status_code (Exception msg) = 500"


definition demo_store :: chat_store where
  "demo_store = \<lparr>sessions = Map.empty, reachable = True\<rparr>"

section \<open>PII heuristic filter (app/utils/pii.py)\<close>

record PIIMatch =
  pii_kind :: string
  pii_match :: string
  pii_start :: nat
  pii_end :: nat

text \<open>
  The regular expressions of \<open>_compile_patterns\<close> use character sets, \<open>\d\<close>, \<open>\b\<close>,
  greedy repetition of a character set, an optional group and alternation.  A text is a
  sequence of 8-bit characters; \<open>\d\<close> and \<open>\w\<close> are Python's classes on that range.
\<close>

definition is_digit :: "char \<Rightarrow> bool" where
  "is_digit c \<longleftrightarrow> 48 \<le> (of_char c :: nat) \<and> (of_char c :: nat) \<le> 57"

definition is_word :: "char \<Rightarrow> bool" where
  "is_word c \<longleftrightarrow>
     (let n = (of_char c :: nat) in
        48 \<le> n \<and> n \<le> 57 \<or> 65 \<le> n \<and> n \<le> 90 \<or> n = 95 \<or> 97 \<le> n \<and> n \<le> 122
      \<or> n = 170 \<or> n = 178 \<or> n = 179 \<or> n = 181 \<or> n = 185 \<or> n = 186
      \<or> 188 \<le> n \<and> n \<le> 190 \<or> 192 \<le> n \<and> n \<le> 214 \<or> 216 \<le> n \<and> n \<le> 246
      \<or> 248 \<le> n)"

datatype citem = Chr char | Rng char char | Digit

fun in_item :: "char \<Rightarrow> citem \<Rightarrow> bool" where
  "in_item c (Chr x) \<longleftrightarrow> c = x"
| "in_item c (Rng lo hi) \<longleftrightarrow> (of_char lo :: nat) \<le> of_char c \<and> (of_char c :: nat) \<le> of_char hi"
| "in_item c Digit \<longleftrightarrow> is_digit c"

definition in_class :: "citem list \<Rightarrow> char \<Rightarrow> bool" where
  "in_class cl c \<longleftrightarrow> list_ex (in_item c) cl"

datatype regex =
    Boundary
  | Lit char
  | Repeat "citem list" nat "nat option"
  | Optional regex
  | Either regex regex
  | Then regex regex

text \<open>
  A cursor is a position in the text: the character before it, if any, and the rest of
  the text.  \<open>\b\<close> holds where exactly one of the two neighbours is a word character.
\<close>

type_synonym cursor = "char option \<times> string"

definition word_before :: "char option \<Rightarrow> bool" where
  "word_before p = (case p of None \<Rightarrow> False | Some c \<Rightarrow> is_word c)"

definition word_after :: "string \<Rightarrow> bool" where
  "word_after s = (case s of [] \<Rightarrow> False | c # cs \<Rightarrow> is_word c)"

definition advance :: "cursor \<Rightarrow> nat \<Rightarrow> cursor" where
  "advance cur k =
     (if k = 0 then cur else (Some (snd cur ! (k - 1)), drop k (snd cur)))"

text \<open>
  All the ways an expression matches from a cursor, as the cursors after the match, in
  the order in which a backtracking matcher tries them: a greedy repetition tries the
  longest run first, an optional group tries the group first, an alternation its left
  branch first.
\<close>

fun ends :: "regex \<Rightarrow> cursor \<Rightarrow> cursor list" where
  "ends Boundary cur = (if word_before (fst cur) \<noteq> word_after (snd cur) then [cur] else [])"
| "ends (Lit c) cur =
     (case snd cur of [] \<Rightarrow> [] | x # xs \<Rightarrow> if x = c then [(Some x, xs)] else [])"
| "ends (Repeat cl lo hi) cur =
     (let n = length (takeWhile (in_class cl) (snd cur));
          m = (case hi of None \<Rightarrow> n | Some h \<Rightarrow> min h n)
      in map (advance cur) (rev [lo..<Suc m]))"
| "ends (Optional r) cur = ends r cur @ [cur]"
| "ends (Either a b) cur = ends a cur @ ends b cur"
| "ends (Then a b) cur = concat (map (ends b) (ends a cur))"

definition match_here :: "regex \<Rightarrow> cursor \<Rightarrow> cursor option" where
  "match_here r cur = (case ends r cur of [] \<Rightarrow> None | c # cs \<Rightarrow> Some c)"

text \<open>
  \<open>pattern.finditer(text)\<close>: the non-overlapping matches from left to right, as pairs of
  start and end offset.  After a match the scan goes on at its end.  None of the four
  patterns matches the empty string; after an empty match the scan moves one character on.
\<close>

function scan :: "regex \<Rightarrow> char option \<Rightarrow> string \<Rightarrow> nat \<Rightarrow> (nat \<times> nat) list" where
  "scan r p s pos =
     (case match_here r (p, s) of
        None \<Rightarrow> (case s of [] \<Rightarrow> [] | x # xs \<Rightarrow> scan r (Some x) xs (Suc pos))
      | Some (p1, s1) \<Rightarrow>
          if length s1 < length s then
            (pos, pos + (length s - length s1)) # scan r p1 s1 (pos + (length s - length s1))
          else
            (pos, pos) # (case s of [] \<Rightarrow> [] | x # xs \<Rightarrow> scan r (Some x) xs (Suc pos)))"
  by pat_completeness auto
termination
  by (relation "measure (\<lambda>(r, p, s, pos). length s)") auto

declare scan.simps [simp del]

definition finditer :: "regex \<Rightarrow> string \<Rightarrow> (nat \<times> nat) list" where
  "finditer r text = scan r None text 0"

definition alnum :: "citem list" where
  "alnum = [Rng CHR ''A'' CHR ''Z'', Rng CHR ''a'' CHR ''z'', Rng CHR ''0'' CHR ''9'']"

definition email_pattern :: regex where
  "email_pattern =
     Then Boundary
    (Then (Repeat (alnum @ [Chr CHR ''.'', Chr CHR ''_'', Chr CHR ''%'', Chr CHR ''+'', Chr CHR ''-'']) 1 None)
    (Then (Lit CHR ''@'')
    (Then (Repeat (alnum @ [Chr CHR ''.'', Chr CHR ''-'']) 1 None)
    (Then (Lit CHR ''.'')
    (Then (Repeat [Rng CHR ''A'' CHR ''Z'', Rng CHR ''a'' CHR ''z''] 2 None)
     Boundary)))))"

definition phone_pattern :: regex where
  "phone_pattern =
     Then Boundary
    (Then (Either (Then (Optional (Lit CHR ''+'')) (Then (Lit CHR ''2'') (Then (Lit CHR ''5'') (Lit CHR ''4''))))
                  (Lit CHR ''0''))
    (Then (Either (Lit CHR ''7'') (Lit CHR ''1''))
    (Then (Repeat [Digit] 8 (Some 8))
     Boundary)))"

definition national_id_pattern :: regex where
  "national_id_pattern = Then Boundary (Then (Repeat [Digit] 7 (Some 8)) Boundary)"

definition passport_pattern :: regex where
  "passport_pattern = Then Boundary (Then (Repeat alnum 6 (Some 9)) Boundary)"

text \<open>\<open>_PATTERNS\<close>: a dictionary, iterated in insertion order.\<close>

definition PATTERNS :: "(string \<times> regex) list" where
  "PATTERNS =
     [(''email'', email_pattern),
      (''phone'', phone_pattern),
      (''national_id'', national_id_pattern),
      (''passport'', passport_pattern)]"

text \<open>Python's \<open>text[a:b]\<close> for non-negative \<open>a\<close> and \<open>b\<close>, and \<open>needle in text\<close>.\<close>

definition slice :: "string \<Rightarrow> nat \<Rightarrow> nat \<Rightarrow> string" where
  "slice text a b = take (b - a) (drop a text)"

fun starts_with :: "string \<Rightarrow> string \<Rightarrow> bool" where
  "starts_with [] s \<longleftrightarrow> True"
| "starts_with (n # ns) [] \<longleftrightarrow> False"
| "starts_with (n # ns) (c # cs) \<longleftrightarrow> n = c \<and> starts_with ns cs"

fun contains :: "string \<Rightarrow> string \<Rightarrow> bool" where
  "contains needle [] \<longleftrightarrow> needle = []"
| "contains needle (c # cs) \<longleftrightarrow> starts_with needle (c # cs) \<or> contains needle cs"

text \<open>
  The body of the inner loop of \<open>detect_pii\<close> decides whether the match \<open>(start, end)\<close>
  of a kind is appended.
\<close>

definition suppressed :: "string \<Rightarrow> string \<Rightarrow> nat \<times> nat \<Rightarrow> bool" where
  "suppressed text kind_name m \<longleftrightarrow>
     kind_name \<in> {''national_id'', ''passport''} \<and>
     (let surrounding = slice text (fst m - 8) (snd m + 8)
      in contains ''http'' surrounding \<or> contains ''@'' surrounding)"

definition matches_of :: "string \<Rightarrow> string \<times> regex \<Rightarrow> PIIMatch list" where
  "matches_of text = (\<lambda>(kind_name, pattern).
     map (\<lambda>m. \<lparr>pii_kind = kind_name, pii_match = slice text (fst m) (snd m),
                pii_start = fst m, pii_end = snd m\<rparr>)
       (filter (\<lambda>m. \<not> suppressed text kind_name m) (finditer pattern text)))"

definition detect_pii :: "string \<Rightarrow> PIIMatch list" where
  "detect_pii text = (if text = [] then [] else concat (map (matches_of text) PATTERNS))"

text \<open>\<open>str.upper\<close> on the letters a to z; the kinds of \<open>_PATTERNS\<close> have no other letters.\<close>

definition upper_char :: "char \<Rightarrow> char" where
  "upper_char c =
     (if 97 \<le> (of_char c :: nat) \<and> (of_char c :: nat) \<le> 122
      then char_of (of_char c - 32 :: nat) else c)"

definition placeholder :: "PIIMatch \<Rightarrow> string" where
  "placeholder m = ''<'' @ map upper_char (pii_kind m) @ ''_REDACTED>''"

text \<open>
  \<open>sorted(matches, key=lambda x: x.start, reverse=True)\<close>: a stable sort in descending
  order, in which matches of equal start keep their order.
\<close>

definition sorted_reverse :: "PIIMatch list \<Rightarrow> PIIMatch list" where
  "sorted_reverse ms = rev (sort_key pii_start (rev ms))"

definition redact_pii :: "string \<Rightarrow> PIIMatch list option \<Rightarrow> string" where
  "redact_pii text matches =
     (if text = [] then text
      else
        let ms = (case matches of Some ms \<Rightarrow> ms | None \<Rightarrow> detect_pii text)
        in if ms = [] then text
           else foldl (\<lambda>redacted m. take (pii_start m) redacted @ placeholder m
                                      @ drop (pii_end m) redacted)
                  text (sorted_reverse ms))"

definition id_phone_email :: string where
  "id_phone_email = ''ID 12345678, phone 0712345678, email user@example.com''"


text \<open>A text in which a number stands next to an e-mail address.\<close>

definition id_beside_email :: string where
  "id_beside_email = ''12345678 user@example.com''"

section \<open>Facts about the message history manager\<close>

lemma existing_ids_of_eq:
  "existing_ids_of xs ids = ids \<union> {i. Some i \<in> set (map msg_id xs)}"
  by (induction xs arbitrary: ids) (auto split: option.splits)

lemma append_new_eq:
  "append_new ids combined new =
     combined @ filter (\<lambda>msg. msg_id msg = None \<or> the (msg_id msg) \<notin> ids) new"
  by (induction new arbitrary: combined) auto

lemma append_new_at_length:
  "length (append_new_at ids r h new) = length h"
  by (induction new arbitrary: h) auto

lemma append_new_at_other:
  "a \<noteq> r \<Longrightarrow> append_new_at ids r h new ! a = h ! a"
  by (induction new arbitrary: h) auto

lemma append_new_at_target:
  "r < length h \<Longrightarrow> append_new_at ids r h new ! r = append_new ids (h ! r) new"
  by (induction new arbitrary: h) auto

lemma slice_from_neg: "0 < m \<Longrightarrow> slice_from xs (- int m) = most_recent m xs"
  by (auto simp: slice_from_def most_recent_def nat_diff_distrib' intro: arg_cong2 [where f = drop])

lemma length_most_recent: "length (most_recent m xs) = min (length xs) m"
  by (simp add: most_recent_def)

lemma truncate_message_history_pos:
  "0 < m \<Longrightarrow>
   truncate_message_history mh (int m) =
     (if length mh \<le> m then mh
      else filter (\<lambda>msg. kind msg = ''system'') mh
           @ most_recent m (filter (\<lambda>msg. kind msg \<noteq> ''system'') mh))"
  by (simp add: truncate_message_history_def slice_from_neg)

text \<open>
  C5.  \<open>combine_message_histories\<close> returns the existing history, in order, followed by
  the messages of \<open>new_messages\<close>, in order, that carry no identity or an identity
  that no message of the existing history carries.  On the object store the result is a
  freshly allocated list and every object that existed before the call, the two
  arguments among them, is left as it was.
\<close>

theorem combine_message_histories_dedup:
  "combine_message_histories existing new =
     existing @ filter (\<lambda>msg. case msg_id msg of None \<Rightarrow> True
                              | Some i \<Rightarrow> Some i \<notin> set (map msg_id existing)) new
   \<and> (a < length h \<and> b < length h \<longrightarrow>
        snd (combine_message_histories_at h a b) = length h
      \<and> take (length h) (fst (combine_message_histories_at h a b)) = h
      \<and> fst (combine_message_histories_at h a b) ! length h
          = combine_message_histories (h ! a) (h ! b))"
proof -
  have flt: "filter (\<lambda>msg. msg_id msg = None \<or> the (msg_id msg) \<notin> existing_ids_of existing {}) new
      = filter (\<lambda>msg. case msg_id msg of None \<Rightarrow> True
                              | Some i \<Rightarrow> Some i \<notin> set (map msg_id existing)) new"
    by (rule filter_cong) (auto simp: existing_ids_of_eq split: option.splits)
  have pure: "combine_message_histories existing new =
     existing @ filter (\<lambda>msg. case msg_id msg of None \<Rightarrow> True
                              | Some i \<Rightarrow> Some i \<notin> set (map msg_id existing)) new"
    by (simp add: combine_message_histories_def append_new_eq flt)
  have store: "snd (combine_message_histories_at h a b) = length h
      \<and> take (length h) (fst (combine_message_histories_at h a b)) = h
      \<and> fst (combine_message_histories_at h a b) ! length h
          = combine_message_histories (h ! a) (h ! b)"
    if ab: "a < length h \<and> b < length h"
  proof -
    let ?ids = "existing_ids_of (h ! a) {}"
    let ?h1 = "h @ [h ! a]"
    let ?h' = "append_new_at ?ids (length h) ?h1 (?h1 ! b)"
    have res: "combine_message_histories_at h a b = (?h', length h)"
      by (simp add: combine_message_histories_at_def Let_def)
    have len: "length ?h' = Suc (length h)"
      by (simp add: append_new_at_length)
    have old: "?h' ! i = h ! i" if "i < length h" for i
      using that by (simp add: append_new_at_other nth_append)
    have "take (length h) ?h' = h"
      by (rule nth_equalityI) (simp_all add: len old)
    moreover have "?h' ! length h = combine_message_histories (h ! a) (h ! b)"
      using ab by (simp add: append_new_at_target combine_message_histories_def nth_append)
    ultimately show ?thesis
      by (simp add: res)
  qed
  from pure store show ?thesis by blast
qed

theorem combine_message_histories_dedup_witness:
  "combine_message_histories
     [\<lparr>msg_id = Some ''1'', kind = ''request'', payload = ''A''\<rparr>,
      \<lparr>msg_id = Some ''2'', kind = ''response'', payload = ''B''\<rparr>]
     [\<lparr>msg_id = Some ''2'', kind = ''response'', payload = ''B''\<rparr>,
      \<lparr>msg_id = None, kind = ''request'', payload = ''B''\<rparr>,
      \<lparr>msg_id = Some ''3'', kind = ''request'', payload = ''C''\<rparr>]
   = [\<lparr>msg_id = Some ''1'', kind = ''request'', payload = ''A''\<rparr>,
      \<lparr>msg_id = Some ''2'', kind = ''response'', payload = ''B''\<rparr>,
      \<lparr>msg_id = None, kind = ''request'', payload = ''B''\<rparr>,
      \<lparr>msg_id = Some ''3'', kind = ''request'', payload = ''C''\<rparr>]
   \<and> (0::nat) < length [[\<lparr>msg_id = Some ''1'', kind = ''request'', payload = ''A''\<rparr>]]
   \<and> take 1 (fst (combine_message_histories_at
         [[\<lparr>msg_id = Some ''1'', kind = ''request'', payload = ''A''\<rparr>]] 0 0))
       = [[\<lparr>msg_id = Some ''1'', kind = ''request'', payload = ''A''\<rparr>]]"
  using combine_message_histories_dedup
    [of "[\<lparr>msg_id = Some ''1'', kind = ''request'', payload = ''A''\<rparr>,
          \<lparr>msg_id = Some ''2'', kind = ''response'', payload = ''B''\<rparr>]"
        "[\<lparr>msg_id = Some ''2'', kind = ''response'', payload = ''B''\<rparr>,
          \<lparr>msg_id = None, kind = ''request'', payload = ''B''\<rparr>,
          \<lparr>msg_id = Some ''3'', kind = ''request'', payload = ''C''\<rparr>]"
        0 "[[\<lparr>msg_id = Some ''1'', kind = ''request'', payload = ''A''\<rparr>]]" 0]
  by simp

text \<open>
  C2.  With \<open>max_messages = 0\<close> the tail slice \<open>other_messages[-0:]\<close> is the whole
  list, so every non-system message is kept, where the specification keeps
  \<open>min(n - k, 0) = 0\<close> of them.
\<close>

theorem truncate_message_history_zero:
  "truncate_message_history
     [\<lparr>msg_id = None, kind = ''request'', payload = ''first''\<rparr>,
      \<lparr>msg_id = None, kind = ''system'', payload = ''rules''\<rparr>,
      \<lparr>msg_id = None, kind = ''response'', payload = ''second''\<rparr>] 0
   = [\<lparr>msg_id = None, kind = ''system'', payload = ''rules''\<rparr>,
      \<lparr>msg_id = None, kind = ''request'', payload = ''first''\<rparr>,
      \<lparr>msg_id = None, kind = ''response'', payload = ''second''\<rparr>]
   \<and> most_recent 0
       [\<lparr>msg_id = None, kind = ''request'', payload = ''first''\<rparr>,
        \<lparr>msg_id = None, kind = ''response'', payload = ''second''\<rparr>] = []"
  by (simp add: truncate_message_history_def slice_from_def most_recent_def)

section \<open>Facts about the relational store and the indexing run\<close>

lemma set_indexed_empty: "set_indexed {} now ws = ws"
  by (simp add: set_indexed_def)

lemma set_indexed_twice:
  "set_indexed B now (set_indexed A now ws) = set_indexed (A \<union> B) now ws"
  by (auto simp: set_indexed_def)

lemma length_set_indexed: "length (set_indexed S now ws) = length ws"
  by (simp add: set_indexed_def)





lemma next_outcome_keeps:
  "next_outcome db = (ok, db1) \<Longrightarrow>
   committed db1 = committed db \<and> pending db1 = pending db \<and> statements db1 = statements db"
  by (cases "outcomes db") (auto simp: next_outcome_def)

lemma execute_update_keeps:
  assumes "execute_update db b now = (r, db1)"
  shows "committed db1 = committed db"
    and "r = Inr u \<Longrightarrow> pending db1 = set_indexed (set b) now (pending db)"
proof -
  obtain ok d where n: "next_outcome (db\<lparr>statements := statements db @ [b]\<rparr>) = (ok, d)"
    by (cases "next_outcome (db\<lparr>statements := statements db @ [b]\<rparr>)")
  from next_outcome_keeps [OF n] have k: "committed d = committed db" "pending d = pending db"
    by simp_all
  from assms n k show "committed db1 = committed db"
    by (cases ok) (auto simp: execute_update_def)
  from assms n k show "r = Inr u \<Longrightarrow> pending db1 = set_indexed (set b) now (pending db)"
    by (cases ok) (auto simp: execute_update_def)
qed

lemma commit_keeps:
  assumes "commit db = (r, db1)"
  shows "r = Inl e \<Longrightarrow> committed db1 = committed db"
    and "r = Inr u \<Longrightarrow> committed db1 = pending db \<and> pending db1 = pending db"
proof -
  obtain ok d where n: "next_outcome db = (ok, d)"
    by (cases "next_outcome db")
  from next_outcome_keeps [OF n] have k: "committed d = committed db" "pending d = pending db"
    by simp_all
  from assms n k show "r = Inl e \<Longrightarrow> committed db1 = committed db"
    by (cases ok) (auto simp: commit_def)
  from assms n k show "r = Inr u \<Longrightarrow> committed db1 = pending db \<and> pending db1 = pending db"
    by (cases ok) (auto simp: commit_def)
qed

lemma mark_batches_committed:
  "pending db = committed db \<Longrightarrow>
   \<exists>S. S \<subseteq> set ids \<and> committed (snd (mark_batches db ids now i)) = set_indexed S now (committed db)"
proof (induction db ids now i rule: mark_batches.induct)
  case (1 db ids now i)
  show ?case
  proof (cases "i < length ids")
    case False
    then have "mark_batches db ids now i = (Inr (), db)"
      by (subst mark_batches.simps) simp
    then show ?thesis
      by (intro exI [of _ "{}"]) (simp add: set_indexed_empty)
  next
    case True
    let ?b = "take batch_size (drop i ids)"
    have bsub: "set ?b \<subseteq> set ids"
      by (meson set_take_subset set_drop_subset subset_trans)
    obtain r1 db1 where e: "execute_update db ?b now = (r1, db1)"
      by (cases "execute_update db ?b now")
    show ?thesis
    proof (cases r1)
      case (Inl ex)
      then have "mark_batches db ids now i = (Inl ex, db1)"
        using True e by (subst mark_batches.simps) simp
      moreover have "committed db1 = committed db"
        using execute_update_keeps(1) [OF e] .
      ultimately show ?thesis
        by (intro exI [of _ "{}"]) (simp add: set_indexed_empty)
    next
      case (Inr u)
      have db1: "committed db1 = committed db" "pending db1 = set_indexed (set ?b) now (committed db)"
        using execute_update_keeps [OF e] Inr "1.prems" by simp_all
      obtain r2 db2 where c: "commit db1 = (r2, db2)"
        by (cases "commit db1")
      show ?thesis
      proof (cases r2)
        case (Inl ex)
        then have "mark_batches db ids now i = (Inl ex, db2)"
          using True e Inr c by (subst mark_batches.simps) simp
        moreover have "committed db2 = committed db"
          using commit_keeps(1) [OF c Inl] db1 by simp
        ultimately show ?thesis
          by (intro exI [of _ "{}"]) (simp add: set_indexed_empty)
      next
        case r2: (Inr u2)
        have db2: "committed db2 = set_indexed (set ?b) now (committed db)" "pending db2 = committed db2"
          using commit_keeps(2) [OF c r2] db1 by simp_all
        have step: "mark_batches db ids now i = mark_batches db2 ids now (i + batch_size)"
          using True e Inr c r2 by (subst mark_batches.simps) simp
        from "1.IH" [OF True refl e [symmetric] Inr c [symmetric] r2 db2(2)]
        obtain S where S: "S \<subseteq> set ids"
          "committed (snd (mark_batches db2 ids now (i + batch_size))) = set_indexed S now (committed db2)"
          by blast
        show ?thesis
          using S bsub by (intro exI [of _ "set ?b \<union> S"]) (simp add: step db2 set_indexed_twice)
      qed
    qed
  qed
qed

lemma get_unindexed_documents_keeps:
  "get_unindexed_documents db cid = (r, db1) \<Longrightarrow>
   committed db1 = committed db \<and> pending db1 = pending db \<and> statements db1 = statements db"
proof -
  assume a: "get_unindexed_documents db cid = (r, db1)"
  obtain ok d where n: "next_outcome db = (ok, d)"
    by (cases "next_outcome db")
  note k = next_outcome_keeps [OF n]
  show ?thesis
    using a n k by (cases ok) (auto simp: get_unindexed_documents_def execute_select_def)
qed

lemma map_raise_Inr:
  "map_raise f xs = Inr ys \<Longrightarrow> length ys = length xs \<and> (\<forall>i < length xs. f (xs ! i) = Inr (ys ! i))"
proof (induction xs arbitrary: ys)
  case Nil
  then show ?case by simp
next
  case (Cons x xs)
  from Cons.prems obtain y ys' where y: "f x = Inr y" and ys': "map_raise f xs = Inr ys'" and e: "ys = y # ys'"
    by (auto split: sum.splits)
  from Cons.IH [OF ys'] y e show ?case
    by (auto simp: nth_Cons split: nat.splits)
qed

lemma mark_documents_as_indexed_committed:
  assumes "pending db = committed db"
  shows "\<exists>S. S \<subseteq> set ids \<and>
     committed (snd (mark_documents_as_indexed db ids now)) = set_indexed S now (committed db)"
proof (cases "ids = []")
  case True
  then show ?thesis
    by (intro exI [of _ "{}"]) (simp add: mark_documents_as_indexed_def set_indexed_empty)
next
  case False
  from mark_batches_committed [OF assms, of ids now 0]
  obtain S where S: "S \<subseteq> set ids"
    "committed (snd (mark_batches db ids now 0)) = set_indexed S now (committed db)"
    by blast
  obtain r db1 where m: "mark_batches db ids now 0 = (r, db1)"
    by (cases "mark_batches db ids now 0")
  have "committed (snd (mark_documents_as_indexed db ids now)) = committed db1"
    using False m by (cases r) (simp_all add: mark_documents_as_indexed_def rollback_def)
  with S m show ?thesis
    by (intro exI [of _ S]) simp
qed

lemma mark_documents_as_indexed_statements:
  "statements (snd (mark_documents_as_indexed db [] now)) = statements db"
  by (simp add: mark_documents_as_indexed_def)

lemma pipeline_run_Inr:
  assumes "pipeline_run env documents vstore = (Inr nodes, vstore1)"
  shows "vector_store_add env nodes vstore = (None, vstore1)"
    and "\<exists>chunked. map_raise (chunk_document env) documents = Inr chunked
           \<and> map_raise (embed_chunk env) (concat chunked) = Inr nodes"
proof -
  obtain chunked where c: "map_raise (chunk_document env) documents = Inr chunked"
    using assms by (cases "map_raise (chunk_document env) documents") (simp_all add: pipeline_run_def)
  obtain nodes' where n: "map_raise (embed_chunk env) (concat chunked) = Inr nodes'"
    using assms c by (cases "map_raise (embed_chunk env) (concat chunked)") (simp_all add: pipeline_run_def)
  obtain r vs where a: "vector_store_add env nodes' vstore = (r, vs)"
    by (cases "vector_store_add env nodes' vstore")
  from assms c n a have "r = None \<and> nodes' = nodes \<and> vs = vstore1"
    by (cases r) (simp_all add: pipeline_run_def)
  with a c n show "vector_store_add env nodes vstore = (None, vstore1)"
    and "\<exists>chunked. map_raise (chunk_document env) documents = Inr chunked
           \<and> map_raise (embed_chunk env) (concat chunked) = Inr nodes"
    by auto
qed

lemma pipeline_run_covers:
  assumes run: "pipeline_run env documents vstore = (Inr nodes, vstore1)"
    and d: "d \<in> set documents"
  shows "\<exists>chunks. split_text env (case doc_content d of None \<Rightarrow> [] | Some c \<Rightarrow> c) = Inr chunks
      \<and> (\<forall>k < length chunks. \<exists>v. embed_text env (chunks ! k) = Inr v
            \<and> \<lparr>node_doc_id = doc_id d, node_index = k, node_text = chunks ! k,
                node_embedding = v\<rparr> \<in> set nodes)"
proof -
  from pipeline_run_Inr(2) [OF run] obtain chunked where
    c: "map_raise (chunk_document env) documents = Inr chunked" and
    n: "map_raise (embed_chunk env) (concat chunked) = Inr nodes"
    by blast
  from d obtain i where i: "i < length documents" "documents ! i = d"
    by (auto simp: in_set_conv_nth)
  from map_raise_Inr [OF c] i have ci: "chunk_document env d = Inr (chunked ! i)" "i < length chunked"
    by auto
  let ?text = "case doc_content d of None \<Rightarrow> [] | Some c \<Rightarrow> c"
  from ci(1) obtain chunks where s: "split_text env ?text = Inr chunks"
    and ch: "chunked ! i = map (\<lambda>(k, c). (doc_id d, k, c)) (enumerate 0 chunks)"
    by (cases "split_text env ?text") (simp_all add: chunk_document_def)
  have "\<exists>v. embed_text env (chunks ! k) = Inr v
            \<and> \<lparr>node_doc_id = doc_id d, node_index = k, node_text = chunks ! k,
                node_embedding = v\<rparr> \<in> set nodes" if k: "k < length chunks" for k
  proof -
    have "(doc_id d, k, chunks ! k) \<in> set (chunked ! i)"
      unfolding ch using k by (force simp: in_set_conv_nth nth_enumerate_eq)
    then have "(doc_id d, k, chunks ! k) \<in> set (concat chunked)"
      using ci(2) by (auto intro: nth_mem)
    then obtain j where j: "j < length (concat chunked)" "concat chunked ! j = (doc_id d, k, chunks ! k)"
      unfolding in_set_conv_nth [of _ "concat chunked"] by blast
    from map_raise_Inr [OF n] j have e: "embed_chunk env (doc_id d, k, chunks ! k) = Inr (nodes ! j)"
      and jn: "j < length nodes"
      by auto
    from e obtain v where v: "embed_text env (chunks ! k) = Inr v"
      and nd: "nodes ! j = \<lparr>node_doc_id = doc_id d, node_index = k, node_text = chunks ! k,
                node_embedding = v\<rparr>"
      by (cases "embed_text env (chunks ! k)") (simp_all add: embed_chunk_def)
    from nd jn have "\<lparr>node_doc_id = doc_id d, node_index = k, node_text = chunks ! k,
                node_embedding = v\<rparr> \<in> set nodes"
      by (metis nth_mem)
    with v show ?thesis by blast
  qed
  with s show ?thesis by blast
qed

lemma index_documents_unchanged_or_upserted:
  fixes env clk db vstore cid
  defines "r \<equiv> index_documents_by_collection env clk db vstore cid"
  shows "(statements (fst (snd r)) = statements db \<and> committed (fst (snd r)) = committed db)
     \<or> (\<exists>documents db1 nodes.
           get_unindexed_documents (async_session_maker db) cid = (Inr documents, db1)
         \<and> documents \<noteq> []
         \<and> setup_vector_store env cid = None
         \<and> pipeline_run env documents vstore = (Inr nodes, snd (snd r))
         \<and> vector_store_index env nodes = None
         \<and> (\<exists>S. S \<subseteq> set (map doc_id documents)
              \<and> committed (fst (snd r)) = set_indexed S (t_mark clk) (committed db)))"
proof -
  let ?db0 = "async_session_maker db"
  obtain g db1 where g: "get_unindexed_documents ?db0 cid = (g, db1)"
    by (cases "get_unindexed_documents ?db0 cid")
  have k1: "committed db1 = committed db" "pending db1 = committed db" "statements db1 = statements db"
    using get_unindexed_documents_keeps [OF g] by (simp_all add: async_session_maker_def)
  have rb: "statements (rollback db1) = statements db \<and> committed (rollback db1) = committed db"
    using k1 by (simp add: rollback_def)
  show ?thesis
  proof (cases g)
    case (Inl e)
    then show ?thesis using g rb
      by (simp add: r_def index_documents_by_collection_def)
  next
    case (Inr documents)
    note docs = Inr
    show ?thesis
    proof (cases "documents = []")
      case True
      then show ?thesis using g docs rb
        by (simp add: r_def index_documents_by_collection_def)
    next
      case ne: False
      show ?thesis
      proof (cases "setup_vector_store env cid")
        case (Some e)
        then show ?thesis using g docs rb ne
          by (simp add: r_def index_documents_by_collection_def)
      next
        case None
        obtain pr vs1 where p: "pipeline_run env documents vstore = (pr, vs1)"
          by (cases "pipeline_run env documents vstore")
        show ?thesis
        proof (cases pr)
          case (Inl e)
          then show ?thesis using g docs rb ne None p
            by (simp add: r_def index_documents_by_collection_def Let_def)
        next
          case (Inr nodes)
          note nodes = Inr
          show ?thesis
          proof (cases "vector_store_index env nodes")
            case (Some e)
            then show ?thesis using g docs rb ne None p nodes
              by (simp add: r_def index_documents_by_collection_def Let_def)
          next
            case vi: None
            let ?ids = "map doc_id documents"
            obtain mr db2 where m: "mark_documents_as_indexed db1 ?ids (t_mark clk) = (mr, db2)"
              by (cases "mark_documents_as_indexed db1 ?ids (t_mark clk)")
            from mark_documents_as_indexed_committed [of db1 ?ids "t_mark clk"] k1 m
            obtain S where S: "S \<subseteq> set ?ids" "committed db2 = set_indexed S (t_mark clk) (committed db)"
              by auto
            have r: "fst (snd r) = rollback db2" "snd (snd r) = vs1"
              using g docs ne None p nodes vi m
              by (cases mr; simp add: r_def index_documents_by_collection_def Let_def)+
            have "committed (fst (snd r)) = set_indexed S (t_mark clk) (committed db)"
              using r S by (simp add: rollback_def)
            then show ?thesis
              using g docs ne None p nodes vi S(1) r(2)
              by (intro disjI2 exI [of _ documents] exI [of _ db1] exI [of _ nodes] conjI exI [of _ S]) simp_all
          qed
        qed
      qed
    qed
  qed
qed

lemmas demo_defs = demo_rows_def demo_db_def demo_env_def demo_clock_def
lemmas run_defs = index_documents_by_collection_def async_session_maker_def
  get_unindexed_documents_def execute_select_def next_outcome_def unindexed_in_def
  webpage_data_def pipeline_run_def chunk_document_def embed_chunk_def
  mark_documents_as_indexed_def mark_batches.simps execute_update_def commit_def rollback_def
  set_indexed_def batch_size_def failed_def

section \<open>Claims about the indexing synchronizer\<close>

text \<open>
  C6, as amended.  \<open>get_unindexed_documents\<close> returns, in stored order, the dictionary
  of every row of the collection whose \<open>is_indexed\<close> is false and whose
  \<open>content_markdown\<close> is not \<open>NULL\<close> (when the query executes; otherwise it raises),
  and it leaves the committed rows, the rows of the open transaction and the statement log
  as they were.
\<close>

theorem get_unindexed_documents_selects:
  "fst (get_unindexed_documents db cid) =
     (if outcomes db = [] \<or> hd (outcomes db)
      then Inr (map webpage_data
             (filter (\<lambda>w. collection_id w = Some cid \<and> \<not> is_indexed w \<and> content_markdown w \<noteq> None)
                (pending db)))
      else Inl (Exception ''database error''))
   \<and> committed (snd (get_unindexed_documents db cid)) = committed db
   \<and> pending (snd (get_unindexed_documents db cid)) = pending db
   \<and> statements (snd (get_unindexed_documents db cid)) = statements db"
proof -
  obtain ok d where n: "next_outcome db = (ok, d)"
    by (cases "next_outcome db")
  note k = next_outcome_keeps [OF n]
  have ok: "ok \<longleftrightarrow> outcomes db = [] \<or> hd (outcomes db)"
    using n by (cases "outcomes db") (auto simp: next_outcome_def)
  have u: "unindexed_in cid = (\<lambda>w. collection_id w = Some cid \<and> \<not> is_indexed w \<and> content_markdown w \<noteq> None)"
    by (rule ext) (simp add: unindexed_in_def)
  show ?thesis
    using n k ok unfolding u [symmetric]
    by (cases ok) (simp_all add: get_unindexed_documents_def execute_select_def)
qed

text \<open>C6, the amended statement on a store of four rows: only row 1 qualifies.\<close>

theorem get_unindexed_documents_selects_witness:
  "fst (get_unindexed_documents
      \<lparr>committed = [], 
       pending = [\<lparr>wp_id = 1, url = ''u1'', title = None, content_markdown = Some ''text'',
                   last_crawled = None, collection_id = Some ''kfc'', is_indexed = False, indexed_at = None\<rparr>,
                  \<lparr>wp_id = 2, url = ''u2'', title = Some ''t'', content_markdown = None,
                   last_crawled = None, collection_id = Some ''kfc'', is_indexed = False, indexed_at = None\<rparr>,
                  \<lparr>wp_id = 3, url = ''u3'', title = Some ''t'', content_markdown = Some ''more'',
                   last_crawled = None, collection_id = Some ''kfc'', is_indexed = True, indexed_at = Some 5\<rparr>,
                  \<lparr>wp_id = 4, url = ''u4'', title = Some ''t'', content_markdown = Some ''other'',
                   last_crawled = None, collection_id = Some ''other'', is_indexed = False, indexed_at = None\<rparr>],
       outcomes = [], statements = []\<rparr> ''kfc'')
   = Inr [\<lparr>doc_id = 1, doc_url = ''u1'', doc_title = [], doc_content = Some ''text'',
           doc_last_crawled = None\<rparr>]"
  using get_unindexed_documents_selects
    [of "\<lparr>committed = [], 
       pending = [\<lparr>wp_id = 1, url = ''u1'', title = None, content_markdown = Some ''text'',
                   last_crawled = None, collection_id = Some ''kfc'', is_indexed = False, indexed_at = None\<rparr>,
                  \<lparr>wp_id = 2, url = ''u2'', title = Some ''t'', content_markdown = None,
                   last_crawled = None, collection_id = Some ''kfc'', is_indexed = False, indexed_at = None\<rparr>,
                  \<lparr>wp_id = 3, url = ''u3'', title = Some ''t'', content_markdown = Some ''more'',
                   last_crawled = None, collection_id = Some ''kfc'', is_indexed = True, indexed_at = Some 5\<rparr>,
                  \<lparr>wp_id = 4, url = ''u4'', title = Some ''t'', content_markdown = Some ''other'',
                   last_crawled = None, collection_id = Some ''other'', is_indexed = False, indexed_at = None\<rparr>],
       outcomes = [], statements = []\<rparr>" "''kfc''"]
  by (simp add: webpage_data_def)

text \<open>
  C6 as stated fails: a row whose content is the empty string is not \<open>NULL\<close>, so it is
  returned, while the selection worded by the specification (content non-empty) is empty.
\<close>

theorem get_unindexed_documents_empty_content:
  "fst (get_unindexed_documents
      \<lparr>committed = [], 
       pending = [\<lparr>wp_id = 7, url = ''u7'', title = None, content_markdown = Some [],
                   last_crawled = None, collection_id = Some ''kfc'', is_indexed = False, indexed_at = None\<rparr>],
       outcomes = [], statements = []\<rparr> ''kfc'')
   = Inr [\<lparr>doc_id = 7, doc_url = ''u7'', doc_title = [], doc_content = Some [],
           doc_last_crawled = None\<rparr>]
   \<and> select_unindexed_spec ''kfc''
        [\<lparr>wp_id = 7, url = ''u7'', title = None, content_markdown = Some [],
          last_crawled = None, collection_id = Some ''kfc'', is_indexed = False, indexed_at = None\<rparr>] = []"
  by (simp add: get_unindexed_documents_def execute_select_def next_outcome_def unindexed_in_def
        webpage_data_def select_unindexed_spec_def)



text \<open>
  C1.  In a run of \<open>index_documents_by_collection\<close>: if chunking, embedding or the
  vector-store upsert raises, no \<open>UPDATE\<close> is sent and the committed rows are as
  before; and every row that the run turns from not indexed to indexed was selected by the
  run, the pipeline returned normally on the selected documents, the upsert call returned
  normally on the produced nodes, and these nodes hold an embedded node for every chunk of
  every selected document.
\<close>

theorem index_documents_marks_only_after_upsert:
  fixes env clk db vstore cid
  defines "r \<equiv> index_documents_by_collection env clk db vstore cid"
  shows
   "(\<forall>documents db1 e vstore1.
        get_unindexed_documents (async_session_maker db) cid = (Inr documents, db1)
      \<and> pipeline_run env documents vstore = (Inl e, vstore1)
      \<longrightarrow> committed (fst (snd r)) = committed db \<and> statements (fst (snd r)) = statements db)
  \<and> (\<forall>n < length (committed db).
        is_indexed (committed (fst (snd r)) ! n) \<and> \<not> is_indexed (committed db ! n)
      \<longrightarrow> (\<exists>documents db1 nodes.
             get_unindexed_documents (async_session_maker db) cid = (Inr documents, db1)
           \<and> wp_id (committed db ! n) \<in> set (map doc_id documents)
           \<and> pipeline_run env documents vstore = (Inr nodes, snd (snd r))
           \<and> vector_store_add env nodes vstore = (None, snd (snd r))
           \<and> (\<forall>d \<in> set documents.
                \<exists>chunks. split_text env (case doc_content d of None \<Rightarrow> [] | Some c \<Rightarrow> c) = Inr chunks
                  \<and> (\<forall>k < length chunks. \<exists>v. embed_text env (chunks ! k) = Inr v
                       \<and> \<lparr>node_doc_id = doc_id d, node_index = k, node_text = chunks ! k,
                           node_embedding = v\<rparr> \<in> set nodes))))"
proof (intro conjI allI impI)
  fix documents db1 e vstore1
  assume a: "get_unindexed_documents (async_session_maker db) cid = (Inr documents, db1)
      \<and> pipeline_run env documents vstore = (Inl e, vstore1)"
  from index_documents_unchanged_or_upserted [of env clk db vstore cid] a
  show "committed (fst (snd r)) = committed db" and "statements (fst (snd r)) = statements db"
    unfolding r_def by auto
next
  fix n
  assume n: "n < length (committed db)"
    and flip: "is_indexed (committed (fst (snd r)) ! n) \<and> \<not> is_indexed (committed db ! n)"
  then have "committed (fst (snd r)) \<noteq> committed db"
    by auto
  with index_documents_unchanged_or_upserted [of env clk db vstore cid]
  obtain documents db1 nodes S where
    g: "get_unindexed_documents (async_session_maker db) cid = (Inr documents, db1)" and
    p: "pipeline_run env documents vstore = (Inr nodes, snd (snd r))" and
    S: "S \<subseteq> set (map doc_id documents)"
       "committed (fst (snd r)) = set_indexed S (t_mark clk) (committed db)"
    unfolding r_def by blast
  have "wp_id (committed db ! n) \<in> S"
    using flip n unfolding S(2) by (auto simp: set_indexed_def split: if_splits)
  with S(1) have mem: "wp_id (committed db ! n) \<in> set (map doc_id documents)"
    by blast
  show "\<exists>documents db1 nodes.
             get_unindexed_documents (async_session_maker db) cid = (Inr documents, db1)
           \<and> wp_id (committed db ! n) \<in> set (map doc_id documents)
           \<and> pipeline_run env documents vstore = (Inr nodes, snd (snd r))
           \<and> vector_store_add env nodes vstore = (None, snd (snd r))
           \<and> (\<forall>d \<in> set documents.
                \<exists>chunks. split_text env (case doc_content d of None \<Rightarrow> [] | Some c \<Rightarrow> c) = Inr chunks
                  \<and> (\<forall>k < length chunks. \<exists>v. embed_text env (chunks ! k) = Inr v
                       \<and> \<lparr>node_doc_id = doc_id d, node_index = k, node_text = chunks ! k,
                           node_embedding = v\<rparr> \<in> set nodes))"
    using g mem p pipeline_run_Inr(1) [OF p] pipeline_run_covers [OF p]
    by (intro exI [of _ documents] exI [of _ db1] exI [of _ nodes] conjI ballI) simp_all
qed

text \<open>C1 on the example store: row 1 becomes indexed after its node was upserted.\<close>

theorem index_documents_marks_only_after_upsert_witness:
  "(0::nat) < length (committed (demo_db []))
   \<and> is_indexed (committed (fst (snd
        (index_documents_by_collection demo_env demo_clock (demo_db []) [] ''kfc''))) ! 0)
   \<and> \<not> is_indexed (committed (demo_db []) ! 0)
   \<and> (\<exists>documents db1 nodes.
         get_unindexed_documents (async_session_maker (demo_db [])) ''kfc'' = (Inr documents, db1)
       \<and> wp_id (committed (demo_db []) ! 0) \<in> set (map doc_id documents)
       \<and> pipeline_run demo_env documents []
           = (Inr nodes, snd (snd (index_documents_by_collection demo_env demo_clock (demo_db []) [] ''kfc'')))
       \<and> vector_store_add demo_env nodes []
           = (None, snd (snd (index_documents_by_collection demo_env demo_clock (demo_db []) [] ''kfc''))))"
proof -
  have run: "index_documents_by_collection demo_env demo_clock (demo_db []) [] ''kfc'' =
      (\<lparr>stats_collection_id = ''kfc'', start_time = 10, documents_processed = 2,
        documents_indexed = 2, status = ''completed'', end_time = Some 12, message = None,
        error = None\<rparr>,
       \<lparr>committed = set_indexed {1, 150} 11 demo_rows, pending = set_indexed {1, 150} 11 demo_rows,
        outcomes = [], statements = [[1, 150]]\<rparr>,
       [\<lparr>node_doc_id = 1, node_index = 0, node_text = ''x'', node_embedding = [1]\<rparr>,
        \<lparr>node_doc_id = 150, node_index = 0, node_text = ''y'', node_embedding = [1]\<rparr>])"
    by (simp add: demo_defs run_defs Let_def)
  have h1: "(0::nat) < length (committed (demo_db []))"
    by (simp add: demo_defs)
  have h2: "is_indexed (committed (fst (snd
        (index_documents_by_collection demo_env demo_clock (demo_db []) [] ''kfc''))) ! 0)
      \<and> \<not> is_indexed (committed (demo_db []) ! 0)"
    unfolding run by (simp add: demo_defs set_indexed_def)
  note T = index_documents_marks_only_after_upsert
    [where env = demo_env and clk = demo_clock and db = "demo_db []" and vstore = "[]"
       and cid = "''kfc''", THEN conjunct2, rule_format, OF h1 h2]
  from h1 h2 T show ?thesis
    by blast
qed

section \<open>Claims about the conversation session service\<close>




text \<open>
  C9.  Deleting a session that does not exist: the persistence service returns false, the
  endpoint raises the 404 inside its \<open>try\<close> block, the handler \<open>except Exception\<close> catches
  it, and the caller gets status 500, the same status as for a persistence failure.
\<close>

theorem delete_chat_not_found_is_500:
  "map_sum id fst (delete_chat_session demo_store ''s-42'') = Inr False
   \<and> map_sum status_code id (fst (delete_chat demo_store ''s-42'')) = Inl 500
   \<and> map_sum status_code id (fst (delete_chat (demo_store\<lparr>reachable := False\<rparr>) ''s-42'')) = Inl 500"
  by (simp add: delete_chat_def delete_chat_session_def demo_store_def persistence_failure_def)

section \<open>Claims about the PII heuristic filter\<close>

lemma detect_pii_id_phone_email:
  "detect_pii id_phone_email =
     [\<lparr>pii_kind = ''email'', pii_match = ''user@example.com'', pii_start = 37, pii_end = 53\<rparr>,
      \<lparr>pii_kind = ''phone'', pii_match = ''0712345678'', pii_start = 19, pii_end = 29\<rparr>,
      \<lparr>pii_kind = ''national_id'', pii_match = ''12345678'', pii_start = 3, pii_end = 11\<rparr>,
      \<lparr>pii_kind = ''passport'', pii_match = ''12345678'', pii_start = 3, pii_end = 11\<rparr>]"
  by code_simp

lemma redact_pii_id_phone_email:
  "redact_pii id_phone_email None
     = ''ID <PASSPORT_REDACTED>L_ID_REDACTED>, phone <PHONE_REDACTED>, email <EMAIL_REDACTED>''"
proof -
  have "redact_pii id_phone_email None =
      foldl (\<lambda>redacted m. take (pii_start m) redacted @ placeholder m @ drop (pii_end m) redacted)
        id_phone_email (sorted_reverse (detect_pii id_phone_email))"
    by (simp add: redact_pii_def detect_pii_id_phone_email) (simp add: id_phone_email_def)
  also have "\<dots> = ''ID <PASSPORT_REDACTED>L_ID_REDACTED>, phone <PHONE_REDACTED>, email <EMAIL_REDACTED>''"
    unfolding detect_pii_id_phone_email by code_simp
  finally show ?thesis .
qed

text \<open>
  C3.  On the text of the repository's own test the token \<open>12345678\<close> is reported as
  \<open>national_id\<close> and as \<open>passport\<close> over the same span; the second replacement is
  applied at the offsets of the original text and overwrites the head of the first
  placeholder, so the result does not contain \<open><NATIONAL_ID_REDACTED>\<close>.  The other two
  placeholders are present and none of the original literals is.
\<close>

theorem redact_pii_loses_national_id:
  "redact_pii id_phone_email None
     = ''ID <PASSPORT_REDACTED>L_ID_REDACTED>, phone <PHONE_REDACTED>, email <EMAIL_REDACTED>''
   \<and> \<not> contains ''<NATIONAL_ID_REDACTED>'' (redact_pii id_phone_email None)
   \<and> contains ''<PHONE_REDACTED>'' (redact_pii id_phone_email None)
   \<and> contains ''<EMAIL_REDACTED>'' (redact_pii id_phone_email None)
   \<and> \<not> contains ''12345678'' (redact_pii id_phone_email None)
   \<and> \<not> contains ''0712345678'' (redact_pii id_phone_email None)
   \<and> \<not> contains ''user@example.com'' (redact_pii id_phone_email None)"
  unfolding redact_pii_id_phone_email by code_simp

section \<open>Facts about pattern matching and detection\<close>

lemma starts_with_iff: "starts_with n s \<longleftrightarrow> (\<exists>q. s = n @ q)"
  by (induction n s rule: starts_with.induct) auto

lemma contains_iff: "contains n s \<longleftrightarrow> (\<exists>p q. s = p @ n @ q)"
proof (induction s)
  case Nil
  then show ?case by simp
next
  case (Cons c cs)
  show ?case
  proof
    assume "contains n (c # cs)"
    then consider "starts_with n (c # cs)" | "contains n cs" by auto
    then show "\<exists>p q. c # cs = p @ n @ q"
    proof cases
      case 1
      then obtain q where "c # cs = n @ q" by (auto simp: starts_with_iff)
      then have "c # cs = [] @ n @ q" by simp
      then show ?thesis by blast
    next
      case 2
      with Cons.IH obtain p q where "cs = p @ n @ q" by blast
      then have "c # cs = (c # p) @ n @ q" by simp
      then show ?thesis by blast
    qed
  next
    assume "\<exists>p q. c # cs = p @ n @ q"
    then obtain p q where e: "c # cs = p @ n @ q" by blast
    show "contains n (c # cs)"
    proof (cases p)
      case Nil
      with e have "starts_with n (c # cs)" by (auto simp: starts_with_iff)
      then show ?thesis by simp
    next
      case (Cons x p')
      with e have "cs = p' @ n @ q" by simp
      with Cons.IH have "contains n cs" by blast
      then show ?thesis by simp
    qed
  qed
qed

lemma finditer_empty:
  "(kind_name, pattern) \<in> set PATTERNS \<Longrightarrow> finditer pattern [] = []"
  by (auto simp: PATTERNS_def finditer_def scan.simps match_here_def email_pattern_def
      phone_pattern_def national_id_pattern_def passport_pattern_def word_before_def word_after_def)





lemma in_matches_of:
  "x \<in> set (matches_of text (k, p)) \<longleftrightarrow>
     (\<exists>m \<in> set (finditer p text). \<not> suppressed text k m
        \<and> x = \<lparr>pii_kind = k, pii_match = slice text (fst m) (snd m),
                pii_start = fst m, pii_end = snd m\<rparr>)"
  by (auto simp: matches_of_def)

lemma in_detect_pii:
  "x \<in> set (detect_pii text) \<longleftrightarrow>
     text \<noteq> [] \<and> (\<exists>kp \<in> set PATTERNS. x \<in> set (matches_of text kp))"
  by (auto simp: detect_pii_def)










text \<open>
  C7.  For every text and every match \<open>m\<close> that the pattern of a kind finds in it: when
  the kind is \<open>national_id\<close> or \<open>passport\<close> and the window from 8 characters before the
  match to 8 characters after it contains \<open>http\<close> or \<open>@\<close>, the result of \<open>detect_pii\<close>
  has no entry of that kind over that span; when the kind is \<open>email\<close> or \<open>phone\<close>, the
  result has the entry of that kind over that span, whatever the window contains.
\<close>

theorem detect_pii_suppression:
  assumes pat: "(kind_name, pattern) \<in> set PATTERNS"
    and m: "m \<in> set (finditer pattern text)"
  shows "(kind_name \<in> {''national_id'', ''passport''}
          \<and> (contains ''http'' (slice text (fst m - 8) (snd m + 8))
               \<or> contains ''@'' (slice text (fst m - 8) (snd m + 8)))
        \<longrightarrow> \<not> (\<exists>x \<in> set (detect_pii text).
                  pii_kind x = kind_name \<and> pii_start x = fst m \<and> pii_end x = snd m))
     \<and> (kind_name \<in> {''email'', ''phone''}
        \<longrightarrow> \<lparr>pii_kind = kind_name, pii_match = slice text (fst m) (snd m),
              pii_start = fst m, pii_end = snd m\<rparr> \<in> set (detect_pii text))"
proof (intro conjI impI)
  assume a: "kind_name \<in> {''national_id'', ''passport''}
          \<and> (contains ''http'' (slice text (fst m - 8) (snd m + 8))
               \<or> contains ''@'' (slice text (fst m - 8) (snd m + 8)))"
  then have sup: "suppressed text kind_name m"
    by (simp add: suppressed_def Let_def)
  show "\<not> (\<exists>x \<in> set (detect_pii text).
                  pii_kind x = kind_name \<and> pii_start x = fst m \<and> pii_end x = snd m)"
  proof
    assume "\<exists>x \<in> set (detect_pii text).
                  pii_kind x = kind_name \<and> pii_start x = fst m \<and> pii_end x = snd m"
    then obtain x where x: "x \<in> set (detect_pii text)" "pii_kind x = kind_name"
      "pii_start x = fst m" "pii_end x = snd m"
      by blast
    from x(1) obtain k p where kp: "(k, p) \<in> set PATTERNS" "x \<in> set (matches_of text (k, p))"
      unfolding in_detect_pii by auto
    from kp(2) obtain m' where m': "\<not> suppressed text k m'"
      "x = \<lparr>pii_kind = k, pii_match = slice text (fst m') (snd m'),
                pii_start = fst m', pii_end = snd m'\<rparr>"
      unfolding in_matches_of by blast
    from m'(2) x have "k = kind_name" "m' = m"
      by (auto simp: prod_eq_iff)
    with m'(1) sup show False by simp
  qed
next
  assume a: "kind_name \<in> {''email'', ''phone''}"
  then have "\<not> suppressed text kind_name m"
    by (auto simp: suppressed_def)
  with m have "\<lparr>pii_kind = kind_name, pii_match = slice text (fst m) (snd m),
              pii_start = fst m, pii_end = snd m\<rparr> \<in> set (matches_of text (kind_name, pattern))"
    unfolding in_matches_of by blast
  moreover have "text \<noteq> []"
    using m finditer_empty [OF pat] by auto
  ultimately show "\<lparr>pii_kind = kind_name, pii_match = slice text (fst m) (snd m),
              pii_start = fst m, pii_end = snd m\<rparr> \<in> set (detect_pii text)"
    unfolding in_detect_pii using pat by blast
qed

text \<open>
  C7 where a number stands next to an e-mail address: the \<open>national_id\<close> match is
  dropped, the \<open>email\<close> match is kept.
\<close>

theorem detect_pii_suppression_witness:
  "(''national_id'', national_id_pattern) \<in> set PATTERNS
   \<and> (0, 8) \<in> set (finditer national_id_pattern id_beside_email)
   \<and> contains ''@'' (slice id_beside_email (0 - 8) (8 + 8))
   \<and> \<not> (\<exists>x \<in> set (detect_pii id_beside_email).
           pii_kind x = ''national_id'' \<and> pii_start x = 0 \<and> pii_end x = 8)
   \<and> (''email'', email_pattern) \<in> set PATTERNS
   \<and> (9, 25) \<in> set (finditer email_pattern id_beside_email)
   \<and> \<lparr>pii_kind = ''email'', pii_match = ''user@example.com'', pii_start = 9, pii_end = 25\<rparr>
        \<in> set (detect_pii id_beside_email)"
proof -
  have p1: "(''national_id'', national_id_pattern) \<in> set PATTERNS"
    and p2: "(''email'', email_pattern) \<in> set PATTERNS"
    by (simp_all add: PATTERNS_def)
  have f1: "finditer national_id_pattern id_beside_email = [(0, 8)]"
    by code_simp
  have f2: "finditer email_pattern id_beside_email = [(9, 25)]"
    by code_simp
  have m1: "(0, 8) \<in> set (finditer national_id_pattern id_beside_email)"
    unfolding f1 by simp
  have m2: "(9, 25) \<in> set (finditer email_pattern id_beside_email)"
    unfolding f2 by simp
  have w: "contains ''@'' (slice id_beside_email (0 - 8) (8 + 8))"
    by code_simp
  have s: "slice id_beside_email 9 25 = ''user@example.com''"
    by code_simp
  from detect_pii_suppression [OF p1 m1] w
  have c1: "\<not> (\<exists>x \<in> set (detect_pii id_beside_email).
           pii_kind x = ''national_id'' \<and> pii_start x = 0 \<and> pii_end x = 8)"
    by simp
  from detect_pii_suppression [OF p2 m2] s
  have c2: "\<lparr>pii_kind = ''email'', pii_match = ''user@example.com'', pii_start = 9, pii_end = 25\<rparr>
        \<in> set (detect_pii id_beside_email)"
    by simp
  from p1 p2 m1 m2 w c1 c2 show ?thesis by blast
qed



end
